theory Spec2Isabelle
  imports Main "HOL-Library.Word"
begin

section \<open>The host environment: errors, file system, file objects\<close>

text \<open>
  The module \<^verbatim>\<open>pyutools/io/fileutils.py\<close> is Python 2 code (it indexes the list returned
  by \<^verbatim>\<open>map\<close>); paths and file contents are both byte strings. Every function of the module
  talks to the operating system through \<^verbatim>\<open>os\<close>, \<^verbatim>\<open>os.path\<close>, the builtin \<^verbatim>\<open>open\<close> and
  file objects. These primitives are modelled below on an explicit world state, following
  their documented behaviour; an exception is a value \<open>Inl e\<close> of the result.
\<close>

type_synonym byte = "8 word"
type_synonym bytes = "byte list"
type_synonym path = string

datatype errno = EACCES | EEXIST | EINVAL | EIO | EISDIR | ELOOP | ENOENT

datatype error =
    AssertionError
  | OSError_msg string
  | OSError_errno errno
  | IOError errno
  | ValueError string

text \<open>
  A regular file has its bytes, the error (if any) with which opening it for reading fails,
  and the offsets of the bytes that cannot be transferred (a read whose range covers such an
  offset raises the error stored there). A symbolic link stores a literal target string.
\<close>

record regular_file =
  content :: bytes
  open_err :: "errno option"
  read_err :: "nat \<rightharpoonup> errno"

datatype entry = RegularFile regular_file | Directory | SymLink string

datatype io_event = EvOpen path | EvRead nat nat | EvClose nat

text \<open>
  The world: the directory entries by (normalised, absolute) path, the error with which the
  system refuses to create an entry at a path, the open file descriptors, and the log of
  the calls made on file contents (\<^verbatim>\<open>open\<close>, \<^verbatim>\<open>read\<close>, \<^verbatim>\<open>close\<close>), in order.
\<close>

record world =
  entries :: "path \<rightharpoonup> entry"
  create_err :: "path \<rightharpoonup> errno"
  open_fds :: "nat list"
  io_log :: "io_event list"

text \<open>
  A file object returned by \<^verbatim>\<open>open(path, 'rb')\<close>: its descriptor, the file it reads and
  the current offset. No function of the module writes to a regular file, so the bytes
  seen through a file object are those of the file when it was opened.
\<close>

record file_obj =
  fo_fd :: nat
  fo_file :: regular_file
  fo_pos :: nat

subsection \<open>Path resolution and metadata queries\<close>

text \<open>
  \<^verbatim>\<open>stat\<close> follows symbolic links, at most \<open>MAXSYMLINKS\<close> of them (then \<open>ELOOP\<close>);
  a link whose target is missing gives \<open>ENOENT\<close>. The string stored in a link is looked
  up as a path of the world. \<^verbatim>\<open>lstat\<close> looks at the entry itself.
\<close>

definition MAXSYMLINKS :: nat where
  "MAXSYMLINKS = 40"

fun follow :: "nat \<Rightarrow> (path \<rightharpoonup> entry) \<Rightarrow> path \<Rightarrow> errno + entry" where
  "follow 0 fs p = Inl ELOOP"
| "follow (Suc k) fs p =
     (case fs p of
        None \<Rightarrow> Inl ENOENT
      | Some (SymLink t) \<Rightarrow> follow k fs t
      | Some e \<Rightarrow> Inr e)"

definition os_stat :: "world \<Rightarrow> path \<Rightarrow> error + entry" where
  "os_stat w p =
     (case follow (Suc MAXSYMLINKS) (entries w) p of
        Inl e \<Rightarrow> Inl (OSError_errno e)
      | Inr e \<Rightarrow> Inr e)"

text \<open>
  The field \<^verbatim>\<open>st_size\<close> of a stat result: the number of bytes of a regular file (and of
  the stored string, for the \<^verbatim>\<open>lstat\<close> of a link). The module asks for the size of regular
  files only; the size the system reports for a directory is not modelled.
\<close>

fun st_size :: "entry \<Rightarrow> nat" where
  "st_size (RegularFile f) = length (content f)"
| "st_size Directory = 0"
| "st_size (SymLink t) = length t"

text \<open>
  \<^verbatim>\<open>os.path.islink\<close> is true for a directory entry that is a symbolic link, whatever its
  target; \<^verbatim>\<open>os.path.exists\<close> and \<^verbatim>\<open>os.path.isfile\<close> follow links, and are false when
  \<^verbatim>\<open>stat\<close> fails: \<^verbatim>\<open>os.path.exists\<close> is false for a broken symbolic link.
\<close>

definition os_path_islink :: "world \<Rightarrow> path \<Rightarrow> bool" where
  "os_path_islink w p = (case entries w p of Some (SymLink t) \<Rightarrow> True | _ \<Rightarrow> False)"

definition os_path_exists :: "world \<Rightarrow> path \<Rightarrow> bool" where
  "os_path_exists w p = (case os_stat w p of Inl e \<Rightarrow> False | Inr e \<Rightarrow> True)"

definition os_path_isfile :: "world \<Rightarrow> path \<Rightarrow> bool" where
  "os_path_isfile w p = (case os_stat w p of Inr (RegularFile f) \<Rightarrow> True | _ \<Rightarrow> False)"

subsection \<open>Symbolic links\<close>

text \<open>
  \<^verbatim>\<open>os.readlink\<close> returns the string stored in a link, unresolved. \<^verbatim>\<open>os.symlink\<close> creates
  a link at a free path and fails with \<open>EEXIST\<close> when the path holds any entry, a broken
  link included.
\<close>

definition os_readlink :: "world \<Rightarrow> path \<Rightarrow> error + string" where
  "os_readlink w p =
     (case entries w p of
        None \<Rightarrow> Inl (OSError_errno ENOENT)
      | Some (SymLink t) \<Rightarrow> Inr t
      | Some e \<Rightarrow> Inl (OSError_errno EINVAL))"

definition os_symlink :: "string \<Rightarrow> path \<Rightarrow> world \<Rightarrow> (error + unit) \<times> world" where
  "os_symlink target dst w =
     (case entries w dst of
        Some e \<Rightarrow> (Inl (OSError_errno EEXIST), w)
      | None \<Rightarrow>
          (case create_err w dst of
             Some e \<Rightarrow> (Inl (OSError_errno e), w)
           | None \<Rightarrow> (Inr (), w\<lparr>entries := (entries w)(dst \<mapsto> SymLink target)\<rparr>)))"

subsection \<open>File objects\<close>

definition fresh_fd :: "nat list \<Rightarrow> nat" where
  "fresh_fd fds = Suc (foldr max fds 0)"

definition log_io :: "io_event \<Rightarrow> world \<Rightarrow> world" where
  "log_io ev w = w\<lparr>io_log := io_log w @ [ev]\<rparr>"

text \<open>
  \<^verbatim>\<open>open(path, 'rb')\<close> raises \<^verbatim>\<open>IOError\<close> when the path does not resolve, resolves to a
  directory, or the file refuses to be opened; otherwise it allocates a descriptor.
\<close>

definition py_open :: "path \<Rightarrow> world \<Rightarrow> (error + file_obj) \<times> world" where
  "py_open p w =
     (let w' = log_io (EvOpen p) w in
      case follow (Suc MAXSYMLINKS) (entries w) p of
        Inl e \<Rightarrow> (Inl (IOError e), w')
      | Inr (RegularFile f) \<Rightarrow>
          (case open_err f of
             Some e \<Rightarrow> (Inl (IOError e), w')
           | None \<Rightarrow>
               (let fd = fresh_fd (open_fds w) in
                (Inr \<lparr>fo_fd = fd, fo_file = f, fo_pos = 0\<rparr>,
                 w'\<lparr>open_fds := fd # open_fds w'\<rparr>)))
      | Inr e \<Rightarrow> (Inl (IOError EISDIR), w'))"

text \<open>The error of the first offset of a range that cannot be transferred, if any.\<close>

fun first_err :: "(nat \<rightharpoonup> errno) \<Rightarrow> nat list \<Rightarrow> errno option" where
  "first_err m [] = None"
| "first_err m (i # is) = (case m i of Some e \<Rightarrow> Some e | None \<Rightarrow> first_err m is)"

text \<open>
  \<^verbatim>\<open>f.read(n)\<close> on a file opened in binary mode returns the next \<open>n\<close> bytes, fewer at the
  end of the file and the empty string at the end; it raises \<^verbatim>\<open>IOError\<close> when one of the
  bytes it would return cannot be transferred.
\<close>

definition py_read :: "nat \<Rightarrow> file_obj \<Rightarrow> world \<Rightarrow> (error + bytes) \<times> file_obj \<times> world" where
  "py_read n f w =
     (let chunk = take n (drop (fo_pos f) (content (fo_file f)));
          w' = log_io (EvRead (fo_fd f) n) w
      in case first_err (read_err (fo_file f)) [fo_pos f ..< fo_pos f + length chunk] of
           Some e \<Rightarrow> (Inl (IOError e), f, w')
         | None \<Rightarrow> (Inr chunk, f\<lparr>fo_pos := fo_pos f + length chunk\<rparr>, w'))"

definition py_close :: "file_obj \<Rightarrow> world \<Rightarrow> world" where
  "py_close f w = log_io (EvClose (fo_fd f)) (w\<lparr>open_fds := removeAll (fo_fd f) (open_fds w)\<rparr>)"

section \<open>The hash object of \<^verbatim>\<open>hashlib\<close>\<close>

text \<open>
  \<^verbatim>\<open>hashlib\<close> is not part of the repository. The hash object is a parameter of the model:
  its initial state (\<^verbatim>\<open>hashlib.md5()\<close>), \<^verbatim>\<open>update\<close> and \<^verbatim>\<open>hexdigest\<close>, over any type of
  accumulator states.
\<close>

record 'h hashlib =
  md5_new :: 'h
  update :: "'h \<Rightarrow> bytes \<Rightarrow> 'h"
  hexdigest :: "'h \<Rightarrow> string"

text \<open>
  The documented contract of \<^verbatim>\<open>update\<close>: repeated calls are equivalent to a single call
  with the concatenation of the arguments.
\<close>

definition streaming :: "'h hashlib \<Rightarrow> bool" where
  "streaming H =
     ((\<forall>h a b. update H (update H h a) b = update H h (a @ b)) \<and> (\<forall>h. update H h [] = h))"

definition hex_lower :: "string \<Rightarrow> bool" where
  "hex_lower s = list_all (\<lambda>c. c \<in> set ''0123456789abcdef'') s"

section \<open>\<^verbatim>\<open>pyutools/io/fileutils.py\<close>\<close>

subsection \<open>\<^verbatim>\<open>can_read_file\<close>\<close>

definition can_read_file :: "path \<Rightarrow> world \<Rightarrow> (error + bool) \<times> world" where
  "can_read_file p w =
     (if \<not> os_path_isfile w p then (Inl AssertionError, w)
      else
        case py_open p w of
          (Inl e, w1) \<Rightarrow> (Inr False, w1)
        | (Inr f_in, w1) \<Rightarrow>
            (case py_read 1 f_in w1 of
               (Inr b, f', w2) \<Rightarrow> (Inr True, py_close f_in w2)
             | (Inl e, f', w2) \<Rightarrow> (Inr False, py_close f_in w2)))"

subsection \<open>\<^verbatim>\<open>copy_link\<close>\<close>

definition copy_link :: "path \<Rightarrow> path \<Rightarrow> world \<Rightarrow> (error + unit) \<times> world" where
  "copy_link src dst w =
     (if \<not> os_path_islink w src then
        (Inl (OSError_msg (''Not a symbolic link: '' @ src)), w)
      else if os_path_exists w dst then
        (Inl (OSError_msg (''Destination already exists: '' @ dst)), w)
      else
        case os_readlink w src of
          Inl e \<Rightarrow> (Inl e, w)
        | Inr link_info \<Rightarrow> os_symlink link_info dst w)"

subsection \<open>\<^verbatim>\<open>md5\<close>\<close>

text \<open>
  The loop \<^verbatim>\<open>while True: chunk = f_in.read(chunk_size); if not chunk: break;
  hasher.update(chunk)\<close>. An exception of \<^verbatim>\<open>read\<close> leaves the loop.
\<close>

function md5_loop ::
  "'h hashlib \<Rightarrow> nat \<Rightarrow> file_obj \<Rightarrow> 'h \<Rightarrow> world \<Rightarrow> (error + 'h) \<times> file_obj \<times> world" where
  "md5_loop H chunk_size f_in hasher w =
     (case py_read chunk_size f_in w of
        (Inl e, f', w') \<Rightarrow> (Inl e, f', w')
      | (Inr chunk, f', w') \<Rightarrow>
          if chunk = [] then (Inr hasher, f', w')
          else md5_loop H chunk_size f' (update H hasher chunk) w')"
  by pat_completeness auto
termination
proof (relation "measure (\<lambda>(H, n, f, h, w). length (content (fo_file f)) - fo_pos f)")
  show "wf (measure (\<lambda>(H :: 'h hashlib, n :: nat, f, h :: 'h, w :: world).
          length (content (fo_file f)) - fo_pos f))"
    by simp
next
  fix H :: "'h hashlib" and chunk_size f_in and hasher :: 'h and w x chunk y f' w'
  assume "(x, y) = py_read chunk_size f_in w" "x = Inr chunk" "(f', w') = y" "chunk \<noteq> []"
  then have r: "py_read chunk_size f_in w = (Inr chunk, f', w')"
    by simp
  from r \<open>chunk \<noteq> []\<close>
  have "fo_file f' = fo_file f_in \<and> fo_pos f_in < fo_pos f'
      \<and> fo_pos f' \<le> length (content (fo_file f_in))"
    by (auto simp: py_read_def Let_def split: option.splits)
  then show "((H, chunk_size, f', update H hasher chunk, w'), H, chunk_size, f_in, hasher, w)
      \<in> measure (\<lambda>(H, n, f, h, w). length (content (fo_file f)) - fo_pos f)"
    by auto
qed

text \<open>
  \<^verbatim>\<open>md5\<close> with its local constant \<^verbatim>\<open>chunk_size\<close> as a parameter: the \<^verbatim>\<open>finally\<close> clause
  closes the file on both exits of the loop; an error of \<^verbatim>\<open>open\<close> is raised before the
  \<^verbatim>\<open>try\<close>.
\<close>

definition md5_chunked :: "'h hashlib \<Rightarrow> nat \<Rightarrow> path \<Rightarrow> world \<Rightarrow> (error + string) \<times> world" where
  "md5_chunked H chunk_size f_path w =
     (let hasher = md5_new H in
      case py_open f_path w of
        (Inl e, w1) \<Rightarrow> (Inl e, w1)
      | (Inr f_in, w1) \<Rightarrow>
          (case md5_loop H chunk_size f_in hasher w1 of
             (Inl e, f', w2) \<Rightarrow> (Inl e, py_close f_in w2)
           | (Inr hasher', f', w2) \<Rightarrow> (Inr (hexdigest H hasher'), py_close f_in w2)))"

definition md5 :: "'h hashlib \<Rightarrow> path \<Rightarrow> world \<Rightarrow> (error + string) \<times> world" where
  "md5 H f_path w = md5_chunked H (10 * 1024 * 1024) f_path w"

subsection \<open>\<^verbatim>\<open>is_same_file\<close>\<close>

text \<open>
  In Python 2, \<^verbatim>\<open>map(os.stat, (f1, f2))\<close> is the list of both stat results, computed
  before the sizes are compared.
\<close>

definition is_same_file :: "'h hashlib \<Rightarrow> path \<Rightarrow> path \<Rightarrow> world \<Rightarrow> (error + bool) \<times> world" where
  "is_same_file H f1 f2 w =
     (if \<not> (os_path_isfile w f1 \<and> os_path_isfile w f2) then (Inl AssertionError, w)
      else
        case os_stat w f1 of
          Inl e \<Rightarrow> (Inl e, w)
        | Inr s0 \<Rightarrow>
            (case os_stat w f2 of
               Inl e \<Rightarrow> (Inl e, w)
             | Inr s1 \<Rightarrow>
                 if st_size s0 \<noteq> st_size s1 then (Inr False, w)
                 else
                   case md5 H f1 w of
                     (Inl e, w1) \<Rightarrow> (Inl e, w1)
                   | (Inr d1, w1) \<Rightarrow>
                       (case md5 H f2 w1 of
                          (Inl e, w2) \<Rightarrow> (Inl e, w2)
                        | (Inr d2, w2) \<Rightarrow> (Inr (d1 = d2), w2))))"

section \<open>\<^verbatim>\<open>pyutools/misc/util.py\<close>\<close>

text \<open>The levels of the standard \<^verbatim>\<open>logging\<close> module.\<close>

definition logging_ERROR :: int where
  "logging_ERROR = 40"

definition logging_INFO :: int where
  "logging_INFO = 20"

definition logging_DEBUG :: int where
  "logging_DEBUG = 10"

text \<open>\<^verbatim>\<open>'%s' % n\<close> for an integer: its decimal digits, with a minus sign when negative.\<close>

fun str_nat :: "nat \<Rightarrow> string" where
  "str_nat n =
     (if n < 10 then [''0123456789'' ! n]
      else str_nat (n div 10) @ [''0123456789'' ! (n mod 10)])"

definition str_int :: "int \<Rightarrow> string" where
  "str_int i = (if i < 0 then CHR ''-'' # str_nat (nat (- i)) else str_nat (nat i))"

definition verbosity_to_log_level :: "int \<Rightarrow> error + int" where
  "verbosity_to_log_level verbosity =
     (if verbosity = 0 then Inr logging_ERROR
      else if verbosity = 1 then Inr logging_INFO
      else if verbosity = 2 then Inr logging_DEBUG
      else Inl (ValueError (''Invalid value for verbosity: '' @ str_int verbosity)))"

section \<open>Specification-level notions\<close>

text \<open>
  The successive chunks of \<open>n\<close> elements of a list (the last one may be shorter): what
  reads of size \<open>n\<close> return from a file before the end.
\<close>

fun chunks :: "nat \<Rightarrow> 'a list \<Rightarrow> 'a list list" where
  "chunks n xs = (if n = 0 \<or> xs = [] then [] else take n xs # chunks n (drop n xs))"

text \<open>
  A readable file: opening it succeeds and none of its bytes refuses to be transferred.
\<close>

definition readable :: "regular_file \<Rightarrow> bool" where
  "readable f = (open_err f = None \<and> (\<forall>i<length (content f). read_err f i = None))"

text \<open>
  The digest \<^verbatim>\<open>md5\<close> computes from the bytes \<open>c\<close>: the chunks of 10 MiB fed to a fresh
  hash object, in order.
\<close>

definition digest_of :: "'h hashlib \<Rightarrow> bytes \<Rightarrow> string" where
  "digest_of H c = hexdigest H (foldl (update H) (md5_new H) (chunks (10 * 1024 * 1024) c))"

text \<open>
  An \<^verbatim>\<open>OSError\<close> that reports an existing destination: the one \<^verbatim>\<open>copy_link\<close> raises
  itself, or the system's \<open>EEXIST\<close> ("File exists"), which \<^verbatim>\<open>os.symlink\<close> raises.
\<close>

definition destination_exists_error :: "path \<Rightarrow> error \<Rightarrow> bool" where
  "destination_exists_error dst e =
     (e = OSError_msg (''Destination already exists: '' @ dst) \<or> e = OSError_errno EEXIST)"

section \<open>Sample inputs\<close>

text \<open>
  A small streaming checksum to instantiate the hash object at concrete inputs: the sum of
  the bytes modulo 256, rendered as two lowercase hexadecimal digits.
\<close>

definition hexdigit :: "nat \<Rightarrow> char" where
  "hexdigit n = ''0123456789abcdef'' ! (n mod 16)"

definition sum8 :: "byte hashlib" where
  "sum8 = \<lparr>md5_new = 0, update = (\<lambda>h c. h + sum_list c),
     hexdigest = (\<lambda>h. [hexdigit (unat h div 16), hexdigit (unat h)])\<rparr>"


text \<open>
  A world with readable files, a file that cannot be opened, files with a damaged byte,
  a directory, and symbolic links (to a missing target, and to a regular file).
\<close>

definition file_abc :: regular_file where
  "file_abc = \<lparr>content = [0x61, 0x62, 0x63], open_err = None, read_err = Map.empty\<rparr>"

definition file_abd :: regular_file where
  "file_abd = \<lparr>content = [0x61, 0x62, 0x64], open_err = None, read_err = Map.empty\<rparr>"

definition file_abs :: regular_file where
  "file_abs = \<lparr>content = [0x61, 0x62, 0x73], open_err = None, read_err = Map.empty\<rparr>"

definition file_empty :: regular_file where
  "file_empty = \<lparr>content = [], open_err = None, read_err = Map.empty\<rparr>"

definition file_locked :: regular_file where
  "file_locked = \<lparr>content = [0x61, 0x62, 0x63], open_err = Some EACCES, read_err = Map.empty\<rparr>"

definition file_damaged :: regular_file where
  "file_damaged = \<lparr>content = [1, 2, 3, 4, 5], open_err = None, read_err = [0 \<mapsto> EIO]\<rparr>"

text \<open>A file of 10 MiB and one byte, whose last byte (in the second chunk) is damaged.\<close>

definition file_big :: regular_file where
  "file_big =
     \<lparr>content = replicate (10 * 1024 * 1024) 0 @ [1], open_err = None,
      read_err = [10 * 1024 * 1024 \<mapsto> EIO]\<rparr>"

definition sample_world :: world where
  "sample_world =
     \<lparr>entries =
        [''/a'' \<mapsto> RegularFile file_abc,
         ''/b'' \<mapsto> RegularFile file_abc,
         ''/c'' \<mapsto> RegularFile file_abd,
         ''/s'' \<mapsto> RegularFile file_abs,
         ''/e'' \<mapsto> RegularFile file_empty,
         ''/locked1'' \<mapsto> RegularFile file_locked,
         ''/locked2'' \<mapsto> RegularFile file_locked,
         ''/damaged'' \<mapsto> RegularFile file_damaged,
         ''/big'' \<mapsto> RegularFile file_big,
         ''/dir'' \<mapsto> Directory,
         ''/link'' \<mapsto> SymLink ''/tmp/foo'',
         ''/dangling'' \<mapsto> SymLink ''/nowhere'',
         ''/to_a'' \<mapsto> SymLink ''/a''],
      create_err = [''/ro/new'' \<mapsto> EACCES],
      open_fds = [],
      io_log = []\<rparr>"

section \<open>Auxiliary facts\<close>

declare chunks.simps [simp del]
declare md5_loop.simps [simp del]
declare str_nat.simps [simp del]

lemma first_err_None: "first_err m is = None \<longleftrightarrow> (\<forall>i\<in>set is. m i = None)"
  by (induction "is") (auto split: option.splits)

lemma first_err_append:
  "first_err m (xs @ ys) = (case first_err m xs of Some e \<Rightarrow> Some e | None \<Rightarrow> first_err m ys)"
  by (induction xs) (auto split: option.splits)

lemma py_read_clean:
  assumes "\<forall>i<length (content (fo_file f)). read_err (fo_file f) i = None"
  shows "py_read n f w =
    (Inr (take n (drop (fo_pos f) (content (fo_file f)))),
     f\<lparr>fo_pos := fo_pos f + length (take n (drop (fo_pos f) (content (fo_file f))))\<rparr>,
     log_io (EvRead (fo_fd f) n) w)"
proof -
  have "first_err (read_err (fo_file f))
      [fo_pos f ..< fo_pos f + length (take n (drop (fo_pos f) (content (fo_file f))))] = None"
    using assms by (auto simp: first_err_None)
  then show ?thesis by (simp add: py_read_def Let_def)
qed


lemma py_read_frame:
  "py_read n f w = (r, f', w') \<Longrightarrow>
     w' = log_io (EvRead (fo_fd f) n) w \<and> fo_fd f' = fo_fd f \<and> fo_file f' = fo_file f"
  by (auto simp: py_read_def Let_def split: option.splits)

lemma py_read_indep:
  "fo_file f = fo_file g \<Longrightarrow> fo_pos f = fo_pos g \<Longrightarrow>
     fst (py_read n f w) = fst (py_read n g w') \<and>
     fo_file (fst (snd (py_read n f w))) = fo_file (fst (snd (py_read n g w'))) \<and>
     fo_pos (fst (snd (py_read n f w))) = fo_pos (fst (snd (py_read n g w')))"
  by (auto simp: py_read_def Let_def split: option.splits)

lemma md5_loop_err:
  "py_read n f w = (Inl e, f', w') \<Longrightarrow> md5_loop H n f h w = (Inl e, f', w')"
  by (simp add: md5_loop.simps [of H n f h w])

lemma md5_loop_eof:
  "py_read n f w = (Inr [], f', w') \<Longrightarrow> md5_loop H n f h w = (Inr h, f', w')"
  by (simp add: md5_loop.simps [of H n f h w])

lemma md5_loop_step:
  "py_read n f w = (Inr chunk, f', w') \<Longrightarrow> chunk \<noteq> [] \<Longrightarrow>
     md5_loop H n f h w = md5_loop H n f' (update H h chunk) w'"
  by (simp add: md5_loop.simps [of H n f h w])

lemma md5_loop_frame:
  "md5_loop H n f h w = (r, f', w') \<Longrightarrow>
     entries w' = entries w \<and> create_err w' = create_err w \<and> open_fds w' = open_fds w
     \<and> fo_fd f' = fo_fd f"
proof (induction H n f h w arbitrary: r f' w' rule: md5_loop.induct)
  case (1 H n f h w)
  obtain x g v where rd: "py_read n f w = (x, g, v)"
    by (cases "py_read n f w") auto
  from py_read_frame [OF rd]
  have fr: "v = log_io (EvRead (fo_fd f) n) w" "fo_fd g = fo_fd f"
    by simp_all
  show ?case
  proof (cases x)
    case (Inl e)
    with rd have "py_read n f w = (Inl e, g, v)" by simp
    from md5_loop_err [OF this, of H h] "1.prems" fr show ?thesis
      by (auto simp: log_io_def)
  next
    case (Inr chunk)
    with rd have rd2: "py_read n f w = (Inr chunk, g, v)" by simp
    show ?thesis
    proof (cases "chunk = []")
      case True
      with rd2 have "py_read n f w = (Inr [], g, v)" by simp
      from md5_loop_eof [OF this, of H h] "1.prems" fr show ?thesis
        by (auto simp: log_io_def)
    next
      case False
      from md5_loop_step [OF rd2 False, of H h] "1.prems"
      have "md5_loop H n g (update H h chunk) v = (r, f', w')"
        by simp
      from "1.IH" [OF rd [symmetric] Inr refl False this] fr
      show ?thesis by (simp add: log_io_def)
    qed
  qed
qed

lemma md5_loop_indep:
  "fo_file f = fo_file g \<Longrightarrow> fo_pos f = fo_pos g \<Longrightarrow>
     fst (md5_loop H n f h w) = fst (md5_loop H n g h w')"
proof (induction H n f h w arbitrary: g w' rule: md5_loop.induct)
  case (1 H n f h w)
  obtain x f1 w1 where rd: "py_read n f w = (x, f1, w1)"
    by (cases "py_read n f w") auto
  obtain y g1 v1 where rd': "py_read n g w' = (y, g1, v1)"
    by (cases "py_read n g w'") auto
  from py_read_indep [OF "1.prems", of n w w'] rd rd'
  have eq: "y = x" "fo_file f1 = fo_file g1" "fo_pos f1 = fo_pos g1"
    by simp_all
  show ?case
  proof (cases x)
    case (Inl e)
    with rd rd' eq have "py_read n f w = (Inl e, f1, w1)" "py_read n g w' = (Inl e, g1, v1)"
      by simp_all
    then show ?thesis
      by (simp add: md5_loop_err)
  next
    case (Inr chunk)
    with rd rd' eq
    have r2: "py_read n f w = (Inr chunk, f1, w1)" "py_read n g w' = (Inr chunk, g1, v1)"
      by simp_all
    show ?thesis
    proof (cases "chunk = []")
      case True
      with r2 show ?thesis
        by (simp add: md5_loop_eof)
    next
      case False
      from "1.IH" [OF rd [symmetric] Inr refl False eq(2) eq(3), of v1]
      show ?thesis
        by (simp add: md5_loop_step [OF r2(1) False] md5_loop_step [OF r2(2) False])
    qed
  qed
qed

lemma chunks_step:
  "0 < n \<Longrightarrow> xs \<noteq> [] \<Longrightarrow> chunks n xs = take n xs # chunks n (drop n xs)"
  by (simp add: chunks.simps [of n xs])

lemma chunks_Nil [simp]: "chunks n [] = []"
  by (simp add: chunks.simps [of n "[]"])

lemma md5_loop_clean:
  assumes "\<forall>i<length (content (fo_file f)). read_err (fo_file f) i = None" and "0 < n"
  shows "md5_loop H n f h w =
     (Inr (foldl (update H) h (chunks n (drop (fo_pos f) (content (fo_file f))))),
      f\<lparr>fo_pos := max (fo_pos f) (length (content (fo_file f)))\<rparr>,
      w\<lparr>io_log := io_log w @
         replicate (Suc (length (chunks n (drop (fo_pos f) (content (fo_file f))))))
           (EvRead (fo_fd f) n)\<rparr>)"
  using assms
proof (induction H n f h w rule: md5_loop.induct)
  case (1 H n f h w)
  let ?rest = "drop (fo_pos f) (content (fo_file f))"
  let ?chunk = "take n ?rest"
  let ?f' = "f\<lparr>fo_pos := fo_pos f + length ?chunk\<rparr>"
  let ?w' = "log_io (EvRead (fo_fd f) n) w"
  have rd: "py_read n f w = (Inr ?chunk, ?f', ?w')"
    using "1.prems"(1) by (rule py_read_clean)
  show ?case
  proof (cases "?chunk = []")
    case True
    with \<open>0 < n\<close> have rest: "?rest = []" by (cases ?rest) auto
    then have "length (content (fo_file f)) \<le> fo_pos f" by simp
    then have "max (fo_pos f) (length (content (fo_file f))) = fo_pos f" by simp
    with rd True rest md5_loop_eof [of n f w ?f' ?w' H h] show ?thesis
      by (simp add: log_io_def)
  next
    case False
    then have ne: "?rest \<noteq> []" by auto
    then have lt: "fo_pos f < length (content (fo_file f))" by simp
    have dr: "drop (fo_pos ?f') (content (fo_file ?f')) = drop n ?rest"
      by (simp add: min_def add.commute) 
    have mx: "max (fo_pos ?f') (length (content (fo_file ?f'))) =
        max (fo_pos f) (length (content (fo_file f)))"
      using lt by (auto simp: min_def max_def)
    have ih: "md5_loop H n ?f' (update H h ?chunk) ?w' =
       (Inr (foldl (update H) (update H h ?chunk) (chunks n (drop (fo_pos ?f') (content (fo_file ?f'))))),
        ?f'\<lparr>fo_pos := max (fo_pos ?f') (length (content (fo_file ?f')))\<rparr>,
        ?w'\<lparr>io_log := io_log ?w' @
           replicate (Suc (length (chunks n (drop (fo_pos ?f') (content (fo_file ?f'))))))
             (EvRead (fo_fd ?f') n)\<rparr>)"
      using "1.prems" by (intro "1.IH" [OF rd [symmetric] refl refl False]) simp_all
    show ?thesis
      unfolding md5_loop_step [OF rd False, of H h] ih dr mx chunks_step [OF \<open>0 < n\<close> ne]
      by (simp add: log_io_def replicate_append_same)
  qed
qed

lemma os_stat_follow:
  "os_stat w p = Inr e \<longleftrightarrow> follow (Suc MAXSYMLINKS) (entries w) p = Inr e"
  by (auto simp: os_stat_def split: sum.splits)

lemma first_err_range:
  assumes "m k = Some e" and "\<forall>i<k. m i = None" and "a \<le> k" and "k < b"
  shows "first_err m [a..<b] = Some e"
proof -
  have split: "[a..<b] = [a..<k] @ k # [Suc k..<b]"
    using assms(3,4) by (metis upt_add_eq_append upt_conv_Cons le_Suc_ex less_imp_le_nat)
  have "first_err m [a..<k] = None"
    using assms(2) by (simp add: first_err_None)
  then show ?thesis
    using assms(1) by (simp add: split first_err_append)
qed

lemma md5_loop_fault:
  assumes "read_err (fo_file f) k = Some e" and "\<forall>i<k. read_err (fo_file f) i = None"
    and "k < length (content (fo_file f))" and "fo_pos f \<le> k" and "0 < n"
  shows "fst (md5_loop H n f h w) = Inl (IOError e)"
  using assms
proof (induction H n f h w rule: md5_loop.induct)
  case (1 H n f h w)
  let ?chunk = "take n (drop (fo_pos f) (content (fo_file f)))"
  show ?case
  proof (cases "k < fo_pos f + length ?chunk")
    case True
    with "1.prems" have "first_err (read_err (fo_file f)) [fo_pos f..<fo_pos f + length ?chunk] = Some e"
      by (intro first_err_range) simp_all
    then have "py_read n f w = (Inl (IOError e), f, log_io (EvRead (fo_fd f) n) w)"
      by (simp add: py_read_def Let_def)
    then show ?thesis by (simp add: md5_loop_err)
  next
    case False
    then have "\<forall>i\<in>set [fo_pos f..<fo_pos f + length ?chunk]. read_err (fo_file f) i = None"
      using "1.prems"(2) by auto
    then have "first_err (read_err (fo_file f)) [fo_pos f..<fo_pos f + length ?chunk] = None"
      by (simp only: first_err_None)
    then have rd: "py_read n f w = (Inr ?chunk, f\<lparr>fo_pos := fo_pos f + length ?chunk\<rparr>,
        log_io (EvRead (fo_fd f) n) w)"
      by (simp add: py_read_def Let_def)
    have ne: "?chunk \<noteq> []"
      using "1.prems"(3,4,5) by auto
    have "fst (md5_loop H n (f\<lparr>fo_pos := fo_pos f + length ?chunk\<rparr>) (update H h ?chunk)
        (log_io (EvRead (fo_fd f) n) w)) = Inl (IOError e)"
      using "1.prems" False by (intro "1.IH" [OF rd [symmetric] refl refl ne]) simp_all
    then show ?thesis
      by (simp add: md5_loop_step [OF rd ne])
  qed
qed

lemma concat_chunks: "0 < n \<Longrightarrow> concat (chunks n xs) = xs"
proof (induction n xs rule: chunks.induct)
  case (1 n xs)
  then show ?case by (cases "xs = []") (simp_all add: chunks_step)
qed

lemma chunks_sizes: "c \<in> set (chunks n xs) \<Longrightarrow> c \<noteq> [] \<and> length c \<le> n"
proof (induction n xs rule: chunks.induct)
  case (1 n xs)
  show ?case
  proof (cases "n = 0 \<or> xs = []")
    case True
    with "1.prems" show ?thesis by (auto simp: chunks.simps [of n xs])
  next
    case False
    with "1.prems" "1.IH" show ?thesis by (auto simp: chunks_step)
  qed
qed

lemma foldl_update_chunks:
  assumes "streaming H"
  shows "0 < n \<Longrightarrow> foldl (update H) h (chunks n xs) = update H h xs"
proof (induction n xs arbitrary: h rule: chunks.induct)
  case (1 n xs)
  show ?case
  proof (cases "xs = []")
    case True
    with assms show ?thesis by (simp add: streaming_def)
  next
    case False
    have "foldl (update H) h (chunks n xs) =
        foldl (update H) (update H h (take n xs)) (chunks n (drop n xs))"
      by (simp add: chunks_step [OF "1.prems" False])
    also have "\<dots> = update H (update H h (take n xs)) (drop n xs)"
      using "1.prems" False by (intro "1.IH") simp_all
    also have "\<dots> = update H h xs"
      using assms by (simp add: streaming_def)
    finally show ?thesis .
  qed
qed

lemma foldr_max_ge: "x \<in> set fds \<Longrightarrow> x \<le> foldr max fds (0::nat)"
  by (induction fds) auto

lemma fresh_fd_notin: "fresh_fd fds \<notin> set fds"
  using foldr_max_ge [of "fresh_fd fds" fds] by (auto simp: fresh_fd_def)

lemma py_open_ok:
  "os_stat w p = Inr (RegularFile fl) \<Longrightarrow> open_err fl = None \<Longrightarrow>
     py_open p w =
       (Inr \<lparr>fo_fd = fresh_fd (open_fds w), fo_file = fl, fo_pos = 0\<rparr>,
        w\<lparr>open_fds := fresh_fd (open_fds w) # open_fds w, io_log := io_log w @ [EvOpen p]\<rparr>)"
  by (simp add: os_stat_follow py_open_def Let_def log_io_def)

lemma py_open_refused:
  "os_stat w p = Inr (RegularFile fl) \<Longrightarrow> open_err fl = Some e \<Longrightarrow>
     py_open p w = (Inl (IOError e), log_io (EvOpen p) w)"
  by (simp add: os_stat_follow py_open_def Let_def)

lemma py_open_Inl:
  "py_open p w = (Inl e, w') \<Longrightarrow> w' = log_io (EvOpen p) w"
  by (auto simp: py_open_def Let_def split: sum.splits entry.splits option.splits)

lemma py_open_Inr:
  "py_open p w = (Inr f, w') \<Longrightarrow>
     w' = w\<lparr>open_fds := fo_fd f # open_fds w, io_log := io_log w @ [EvOpen p]\<rparr>
     \<and> fo_fd f \<notin> set (open_fds w) \<and> fo_pos f = 0
     \<and> os_stat w p = Inr (RegularFile (fo_file f)) \<and> open_err (fo_file f) = None"
  by (auto simp: py_open_def Let_def log_io_def os_stat_follow fresh_fd_notin
      split: sum.splits entry.splits option.splits)

lemma py_open_indep:
  "entries w' = entries w \<Longrightarrow>
     (case (fst (py_open p w), fst (py_open p w')) of
        (Inl e, Inl e') \<Rightarrow> e = e'
      | (Inr f, Inr g) \<Rightarrow> fo_file f = fo_file g \<and> fo_pos f = fo_pos g
      | _ \<Rightarrow> False)"
  by (auto simp: py_open_def Let_def split: sum.splits entry.splits option.splits)

lemma md5_chunked_frame:
  "entries (snd (md5_chunked H n p w)) = entries w \<and>
   create_err (snd (md5_chunked H n p w)) = create_err w \<and>
   open_fds (snd (md5_chunked H n p w)) = open_fds w"
proof -
  obtain r w1 where op: "py_open p w = (r, w1)"
    by (cases "py_open p w") auto
  show ?thesis
  proof (cases r)
    case (Inl e)
    with op py_open_Inl [of p w e w1] show ?thesis
      by (simp add: md5_chunked_def log_io_def)
  next
    case (Inr f)
    with op have op': "py_open p w = (Inr f, w1)" by simp
    note o = py_open_Inr [OF op']
    obtain x f' w2 where lp: "md5_loop H n f (md5_new H) w1 = (x, f', w2)"
      by (cases "md5_loop H n f (md5_new H) w1") auto
    from md5_loop_frame [OF lp] o
    have "entries w2 = entries w" "create_err w2 = create_err w"
      "open_fds w2 = fo_fd f # open_fds w" "fo_fd f \<notin> set (open_fds w)"
      by simp_all
    then show ?thesis
      using op' lp by (cases x) (simp_all add: md5_chunked_def py_close_def log_io_def)
  qed
qed

lemma md5_chunked_indep:
  assumes "entries w' = entries w"
  shows "fst (md5_chunked H n p w') = fst (md5_chunked H n p w)"
proof -
  obtain r w1 where op: "py_open p w = (r, w1)"
    by (cases "py_open p w") auto
  obtain r' w1' where op': "py_open p w' = (r', w1')"
    by (cases "py_open p w'") auto
  show ?thesis
  proof (cases r)
    case (Inl e)
    with py_open_indep [OF assms, of p] op op' show ?thesis
      by (cases r') (simp_all add: md5_chunked_def)
  next
    case (Inr f)
    with py_open_indep [OF assms, of p] op op' obtain g where
      g: "r' = Inr g" "fo_file f = fo_file g" "fo_pos f = fo_pos g"
      by (cases r') simp_all
    from md5_loop_indep [OF g(2,3), of H n "md5_new H" w1 w1']
    show ?thesis using Inr g(1) op op'
      by (auto simp: md5_chunked_def split: prod.splits sum.splits)
  qed
qed

lemma md5_chunked_readable:
  assumes "os_stat w p = Inr (RegularFile fl)" and "readable fl" and "0 < n"
  shows "md5_chunked H n p w =
     (Inr (hexdigest H (foldl (update H) (md5_new H) (chunks n (content fl)))),
      w\<lparr>io_log := io_log w @ EvOpen p #
         replicate (Suc (length (chunks n (content fl)))) (EvRead (fresh_fd (open_fds w)) n) @
         [EvClose (fresh_fd (open_fds w))]\<rparr>)"
proof -
  let ?f = "\<lparr>fo_fd = fresh_fd (open_fds w), fo_file = fl, fo_pos = 0\<rparr>"
  let ?w1 = "w\<lparr>open_fds := fresh_fd (open_fds w) # open_fds w, io_log := io_log w @ [EvOpen p]\<rparr>"
  from assms(1,2) have op: "py_open p w = (Inr ?f, ?w1)"
    by (simp add: py_open_ok readable_def)
  have "\<forall>i<length (content (fo_file ?f)). read_err (fo_file ?f) i = None"
    using assms(2) by (simp add: readable_def)
  from md5_loop_clean [OF this assms(3), of H "md5_new H" ?w1] op
  show ?thesis
    by (simp add: md5_chunked_def py_close_def log_io_def fresh_fd_notin)
qed


lemma follow_numeral:
  "follow (numeral k) fs p =
     (case fs p of
        None \<Rightarrow> Inl ENOENT
      | Some (SymLink t) \<Rightarrow> follow (pred_numeral k) fs t
      | Some e \<Rightarrow> Inr e)"
  by (simp add: numeral_eq_Suc)

lemma os_stat_sample_a: "os_stat sample_world ''/a'' = Inr (RegularFile file_abc)"
  by (simp add: os_stat_def sample_world_def)

lemma os_stat_sample_to_a: "os_stat sample_world ''/to_a'' = Inr (RegularFile file_abc)"
  by (simp add: os_stat_def sample_world_def MAXSYMLINKS_def follow_numeral)

lemma os_stat_sample_dangling: "os_stat sample_world ''/dangling'' = Inl (OSError_errno ENOENT)"
  by (simp add: os_stat_def sample_world_def MAXSYMLINKS_def follow_numeral)

lemma readable_abc: "readable file_abc"
  by (simp add: readable_def file_abc_def)

lemma str_int_3: "str_int 3 = ''3''"
  by (simp add: str_int_def str_nat.simps [of 3])

lemma os_path_isfile_iff:
  "os_path_isfile w p \<longleftrightarrow> (\<exists>fl. os_stat w p = Inr (RegularFile fl))"
  by (auto simp: os_path_isfile_def split: sum.splits entry.splits)

lemma first_err_one:
  "first_err m [0..<min (length c) (Suc 0)] = (if c = [] then None else m 0)"
  by (cases c) (auto split: option.splits)

lemma can_read_file_file:
  assumes "os_stat w p = Inr (RegularFile fl)"
  shows "can_read_file p w =
     (Inr (open_err fl = None \<and> (content fl = [] \<or> read_err fl 0 = None)),
      w\<lparr>io_log := io_log w @
         (if open_err fl = None
          then [EvOpen p, EvRead (fresh_fd (open_fds w)) 1, EvClose (fresh_fd (open_fds w))]
          else [EvOpen p])\<rparr>)"
proof (cases "open_err fl")
  case None
  from py_open_ok [OF assms None] assms show ?thesis
    by (auto simp: can_read_file_def os_path_isfile_iff py_read_def py_close_def log_io_def
        Let_def first_err_one None fresh_fd_notin split: option.splits)
next
  case (Some e)
  from py_open_refused [OF assms Some] assms show ?thesis
    by (simp add: can_read_file_def os_path_isfile_iff log_io_def Some)
qed

lemma os_stat_sample_locked1: "os_stat sample_world ''/locked1'' = Inr (RegularFile file_locked)"
  by (simp add: os_stat_def sample_world_def)

lemma os_stat_sample_damaged: "os_stat sample_world ''/damaged'' = Inr (RegularFile file_damaged)"
  by (simp add: os_stat_def sample_world_def)

lemma os_stat_sample_e: "os_stat sample_world ''/e'' = Inr (RegularFile file_empty)"
  by (simp add: os_stat_def sample_world_def)

lemma os_stat_sample_big: "os_stat sample_world ''/big'' = Inr (RegularFile file_big)"
  by (simp add: os_stat_def sample_world_def)

lemma os_path_exists_file:
  "entries w p = Some (RegularFile f) \<Longrightarrow> os_path_exists w p"
  by (simp add: os_path_exists_def os_stat_def)

lemma os_path_exists_dir:
  "entries w p = Some Directory \<Longrightarrow> os_path_exists w p"
  by (simp add: os_path_exists_def os_stat_def)

lemma os_path_exists_entry:
  "os_path_exists w p \<Longrightarrow> entries w p \<noteq> None"
  by (auto simp: os_path_exists_def os_stat_def split: sum.splits option.splits)

lemma os_path_islink_iff:
  "os_path_islink w p \<longleftrightarrow> (\<exists>t. entries w p = Some (SymLink t))"
  by (auto simp: os_path_islink_def split: option.splits entry.splits)

lemma os_symlink_error_frame:
  "os_symlink t dst w = (Inl e, w') \<Longrightarrow> w' = w"
  by (auto simp: os_symlink_def split: option.splits)

lemma copy_link_error_frame:
  "fst (copy_link src dst w) = Inl e \<Longrightarrow> snd (copy_link src dst w) = w"
  by (auto simp: copy_link_def os_symlink_def split: if_splits sum.splits option.splits)

lemma copy_link_linked:
  assumes "entries w src = Some (SymLink t)" and "\<not> os_path_exists w dst"
  shows "copy_link src dst w = os_symlink t dst w"
  using assms by (simp add: copy_link_def os_path_islink_iff os_readlink_def)

lemma islink_sample_link: "os_path_islink sample_world ''/link''"
  by (simp add: os_path_islink_def sample_world_def)

lemma exists_sample_dangling: "\<not> os_path_exists sample_world ''/dangling''"
  by (simp add: os_path_exists_def os_stat_sample_dangling)

lemma chunks_full:
  "Suc i < length (chunks n xs) \<Longrightarrow> length (chunks n xs ! i) = n"
proof (induction n xs arbitrary: i rule: chunks.induct)
  case (1 n xs)
  show ?case
  proof (cases "n = 0 \<or> xs = []")
    case True
    with "1.prems" show ?thesis by (auto simp: chunks.simps [of n xs])
  next
    case False
    then have st: "chunks n xs = take n xs # chunks n (drop n xs)"
      by (simp add: chunks_step)
    show ?thesis
    proof (cases i)
      case 0
      from "1.prems" st have "chunks n (drop n xs) \<noteq> []" by auto
      then have "drop n xs \<noteq> []" by auto
      then show ?thesis using 0 st by simp
    next
      case (Suc j)
      with "1.prems" st have "Suc j < length (chunks n (drop n xs))" by simp
      from "1.IH" [OF False this] show ?thesis using Suc st by simp
    qed
  qed
qed

lemma md5_chunked_closes:
  assumes "py_open p w = (Inr f_in, w1)"
  shows "\<exists>l. io_log (snd (md5_chunked H n p w)) = l @ [EvClose (fo_fd f_in)]"
  using assms
  by (auto simp: md5_chunked_def py_close_def log_io_def split: prod.splits sum.splits)

lemma md5_chunked_propagates:
  assumes "py_open p w = (Inr f_in, w1)" and "md5_loop H n f_in (md5_new H) w1 = (Inl e, f', w2)"
  shows "md5_chunked H n p w = (Inl e, py_close f_in w2)"
  using assms by (simp add: md5_chunked_def)

lemma hexdigit_lower: "hexdigit n \<in> set ''0123456789abcdef''"
proof -
  have "n mod 16 < length ''0123456789abcdef''" by simp
  then show ?thesis unfolding hexdigit_def by (rule nth_mem)
qed

lemma hex_lower_sum8: "hex_lower (hexdigest sum8 h)"
  using hexdigit_lower by (simp add: hex_lower_def sum8_def)

lemma streaming_sum8: "streaming sum8"
  by (simp add: streaming_def sum8_def add.assoc)

lemma md5_loop_fault_log:
  assumes "read_err (fo_file f) k = Some e" and "\<forall>i<k. read_err (fo_file f) i = None"
    and "k < length (content (fo_file f))" and "fo_pos f \<le> k" and "0 < n"
  shows "snd (snd (md5_loop H n f h w)) =
     w\<lparr>io_log := io_log w @ replicate (Suc ((k - fo_pos f) div n)) (EvRead (fo_fd f) n)\<rparr>"
  using assms
proof (induction H n f h w rule: md5_loop.induct)
  case (1 H n f h w)
  let ?chunk = "take n (drop (fo_pos f) (content (fo_file f)))"
  show ?case
  proof (cases "k < fo_pos f + length ?chunk")
    case True
    with "1.prems" have "first_err (read_err (fo_file f)) [fo_pos f..<fo_pos f + length ?chunk] = Some e"
      by (intro first_err_range) simp_all
    then have "py_read n f w = (Inl (IOError e), f, log_io (EvRead (fo_fd f) n) w)"
      by (simp add: py_read_def Let_def)
    moreover from True "1.prems"(4) have "(k - fo_pos f) div n = 0"
      by simp
    ultimately show ?thesis by (simp add: md5_loop_err log_io_def)
  next
    case False
    then have "\<forall>i\<in>set [fo_pos f..<fo_pos f + length ?chunk]. read_err (fo_file f) i = None"
      using "1.prems"(2) by auto
    then have "first_err (read_err (fo_file f)) [fo_pos f..<fo_pos f + length ?chunk] = None"
      by (simp only: first_err_None)
    then have rd: "py_read n f w = (Inr ?chunk, f\<lparr>fo_pos := fo_pos f + length ?chunk\<rparr>,
        log_io (EvRead (fo_fd f) n) w)"
      by (simp add: py_read_def Let_def)
    have ne: "?chunk \<noteq> []"
      using "1.prems"(3,4,5) by auto
    have len: "length ?chunk = n"
      using False "1.prems"(3) by (simp add: min_def split: if_splits)
    have dv: "(k - fo_pos f) div n = Suc ((k - (fo_pos f + n)) div n)"
    proof -
      from False len have "n \<le> k - fo_pos f" by simp
      then have "(k - fo_pos f) div n = Suc ((k - fo_pos f - n) div n)"
        using "1.prems"(5) by (simp add: le_div_geq)
      then show ?thesis by (simp add: diff_diff_left)
    qed
    have "snd (snd (md5_loop H n (f\<lparr>fo_pos := fo_pos f + length ?chunk\<rparr>) (update H h ?chunk)
        (log_io (EvRead (fo_fd f) n) w))) =
      (log_io (EvRead (fo_fd f) n) w)\<lparr>io_log := io_log (log_io (EvRead (fo_fd f) n) w) @
         replicate (Suc ((k - fo_pos (f\<lparr>fo_pos := fo_pos f + length ?chunk\<rparr>)) div n))
           (EvRead (fo_fd (f\<lparr>fo_pos := fo_pos f + length ?chunk\<rparr>)) n)\<rparr>"
      using "1.prems" False by (intro "1.IH" [OF rd [symmetric] refl refl ne]) simp_all
    then show ?thesis
      unfolding md5_loop_step [OF rd ne] dv len
      by (simp add: log_io_def replicate_append_same)
  qed
qed

lemma md5_chunked_fault_log:
  assumes "os_stat w p = Inr (RegularFile fl)" and "open_err fl = None"
    and "read_err fl k = Some e" and "\<forall>i<k. read_err fl i = None"
    and "k < length (content fl)" and "0 < n"
  shows "md5_chunked H n p w =
     (Inl (IOError e),
      w\<lparr>io_log := io_log w @ EvOpen p #
         replicate (Suc (k div n)) (EvRead (fresh_fd (open_fds w)) n) @
         [EvClose (fresh_fd (open_fds w))]\<rparr>)"
proof -
  let ?f = "\<lparr>fo_fd = fresh_fd (open_fds w), fo_file = fl, fo_pos = 0\<rparr>"
  let ?w1 = "w\<lparr>open_fds := fresh_fd (open_fds w) # open_fds w, io_log := io_log w @ [EvOpen p]\<rparr>"
  from assms(1,2) have op: "py_open p w = (Inr ?f, ?w1)"
    by (simp add: py_open_ok)
  have 1: "fst (md5_loop H n ?f (md5_new H) ?w1) = Inl (IOError e)"
    using assms by (intro md5_loop_fault [of _ k]) simp_all
  have 2: "snd (snd (md5_loop H n ?f (md5_new H) ?w1)) =
      ?w1\<lparr>io_log := io_log ?w1 @ replicate (Suc ((k - fo_pos ?f) div n)) (EvRead (fo_fd ?f) n)\<rparr>"
    using assms by (intro md5_loop_fault_log [of _ k e]) simp_all
  obtain x f' w2 where lp: "md5_loop H n ?f (md5_new H) ?w1 = (x, f', w2)"
    by (cases "md5_loop H n ?f (md5_new H) ?w1") auto
  with 1 2 op show ?thesis
    by (simp add: md5_chunked_def py_close_def log_io_def fresh_fd_notin)
qed

lemma file_big_facts:
  "open_err file_big = None"
  "read_err file_big 10485760 = Some EIO"
  "\<forall>i<10485760. read_err file_big i = None"
  "10485760 < length (content file_big)"
  by (simp_all add: file_big_def)

lemma md5_second_call:
  "fst (md5 H f2 (snd (md5 H f1 w))) = fst (md5 H f2 w)"
  unfolding md5_def by (rule md5_chunked_indep) (simp add: md5_chunked_frame)

lemma is_same_file_files:
  assumes "os_stat w f1 = Inr (RegularFile a)" and "os_stat w f2 = Inr (RegularFile b)"
  shows "is_same_file H f1 f2 w =
     (if length (content a) \<noteq> length (content b) then (Inr False, w)
      else
        case md5 H f1 w of
          (Inl e, w1) \<Rightarrow> (Inl e, w1)
        | (Inr d1, w1) \<Rightarrow>
            (case md5 H f2 w1 of
               (Inl e, w2) \<Rightarrow> (Inl e, w2)
             | (Inr d2, w2) \<Rightarrow> (Inr (d1 = d2), w2)))"
  using assms by (simp add: is_same_file_def os_path_isfile_iff)

lemma is_same_file_result:
  assumes "os_stat w f1 = Inr (RegularFile a)" and "os_stat w f2 = Inr (RegularFile b)"
    and "length (content a) = length (content b)"
  shows "fst (is_same_file H f1 f2 w) =
     (case fst (md5 H f1 w) of
        Inl e \<Rightarrow> Inl e
      | Inr d1 \<Rightarrow> (case fst (md5 H f2 w) of Inl e \<Rightarrow> Inl e | Inr d2 \<Rightarrow> Inr (d1 = d2)))"
proof -
  obtain r1 w1 where m1: "md5 H f1 w = (r1, w1)"
    by (cases "md5 H f1 w") auto
  obtain r2 w2 where m2: "md5 H f2 w1 = (r2, w2)"
    by (cases "md5 H f2 w1") auto
  from md5_second_call [of H f2 f1 w] m1 m2 have r2: "fst (md5 H f2 w) = r2"
    by simp
  show ?thesis
    using assms(3) m1 m2 r2
    by (simp add: is_same_file_files [OF assms(1,2)] split: sum.splits)
qed

lemma md5_readable:
  assumes "os_stat w p = Inr (RegularFile fl)" and "readable fl"
  shows "fst (md5 H p w) = Inr (digest_of H (content fl))"
proof -
  have "(0::nat) < 10485760" by simp
  from md5_chunked_readable [OF assms this, of H] show ?thesis
    by (simp add: md5_def digest_of_def)
qed


lemma os_stat_sample_b: "os_stat sample_world ''/b'' = Inr (RegularFile file_abc)"
  by (simp add: os_stat_def sample_world_def)

lemma os_stat_sample_c: "os_stat sample_world ''/c'' = Inr (RegularFile file_abd)"
  by (simp add: os_stat_def sample_world_def)


lemma readable_abd: "readable file_abd"
  by (simp add: readable_def file_abd_def)


lemma digest_of_sum8_abc: "digest_of sum8 (content file_abc) = ''26''"
  by (simp add: digest_of_def sum8_def file_abc_def chunks_step hexdigit_def)

lemma digest_of_sum8_abd: "digest_of sum8 (content file_abd) = ''27''"
  by (simp add: digest_of_def sum8_def file_abd_def chunks_step hexdigit_def)







section \<open>The claims\<close>

subsection \<open>\<^verbatim>\<open>verbosity_to_log_level\<close>\<close>

text \<open>
  Claim C9. For every integer verbosity, \<^verbatim>\<open>verbosity_to_log_level\<close> returns
  \<^verbatim>\<open>logging.ERROR\<close> (40) at 0, \<^verbatim>\<open>logging.INFO\<close> (20) at 1 and \<^verbatim>\<open>logging.DEBUG\<close> (10) at 2;
  at every other value it raises \<^verbatim>\<open>ValueError\<close> with the message naming the value, and it
  raises if and only if the verbosity is not one of 0, 1, 2.
\<close>

theorem verbosity_to_log_level_table:
  "verbosity_to_log_level 0 = Inr logging_ERROR \<and>
   verbosity_to_log_level 1 = Inr logging_INFO \<and>
   verbosity_to_log_level 2 = Inr logging_DEBUG \<and>
   logging_ERROR = 40 \<and> logging_INFO = 20 \<and> logging_DEBUG = 10 \<and>
   (v \<notin> {0, 1, 2} \<longrightarrow>
      verbosity_to_log_level v =
        Inl (ValueError (''Invalid value for verbosity: '' @ str_int v))) \<and>
   ((\<exists>e. verbosity_to_log_level v = Inl e) \<longleftrightarrow> v \<notin> {0, 1, 2})"
  by (simp add: verbosity_to_log_level_def logging_ERROR_def logging_INFO_def logging_DEBUG_def)

theorem verbosity_to_log_level_table_witness:
  "(3::int) \<notin> {0, 1, 2} \<and>
   verbosity_to_log_level 3 = Inl (ValueError ''Invalid value for verbosity: 3'') \<and>
   verbosity_to_log_level 2 = Inr 10"
  using verbosity_to_log_level_table [of 3]
  by (simp add: str_int_3)

subsection \<open>\<^verbatim>\<open>can_read_file\<close>\<close>

text \<open>
  Claim C5. For every path naming an existing regular file, \<^verbatim>\<open>can_read_file\<close> never
  raises: it returns true if opening the file for binary reading and reading one byte both
  succeed, and false if the open or the read raises. In terms of the file: it returns true
  exactly when the file can be opened and its first byte, if there is one, can be
  transferred. The file object is closed again and no entry changes.
\<close>

theorem can_read_file_never_raises:
  assumes "os_path_isfile w p"
  shows "\<exists>fl. os_stat w p = Inr (RegularFile fl) \<and>
     fst (can_read_file p w) =
       Inr (open_err fl = None \<and> (content fl = [] \<or> read_err fl 0 = None)) \<and>
     fst (can_read_file p w) =
       Inr (case py_open p w of
              (Inl e, w1) \<Rightarrow> False
            | (Inr f_in, w1) \<Rightarrow>
                (case fst (py_read 1 f_in w1) of Inl e \<Rightarrow> False | Inr chunk \<Rightarrow> True)) \<and>
     entries (snd (can_read_file p w)) = entries w \<and>
     open_fds (snd (can_read_file p w)) = open_fds w"
proof -
  from assms obtain fl where fl: "os_stat w p = Inr (RegularFile fl)"
    by (auto simp: os_path_isfile_iff)
  have "fst (can_read_file p w) =
       Inr (case py_open p w of
              (Inl e, w1) \<Rightarrow> False
            | (Inr f_in, w1) \<Rightarrow>
                (case fst (py_read 1 f_in w1) of Inl e \<Rightarrow> False | Inr chunk \<Rightarrow> True))"
    using assms by (auto simp: can_read_file_def split: prod.splits sum.splits)
  with fl show ?thesis
    by (auto simp: can_read_file_file [OF fl])
qed

theorem can_read_file_never_raises_witness:
  "os_path_isfile sample_world ''/a'' \<and>
   fst (can_read_file ''/a'' sample_world) = Inr True \<and>
   os_path_isfile sample_world ''/locked1'' \<and>
   fst (can_read_file ''/locked1'' sample_world) = Inr False \<and>
   os_path_isfile sample_world ''/damaged'' \<and>
   fst (can_read_file ''/damaged'' sample_world) = Inr False"
proof -
  have a: "os_path_isfile sample_world ''/a''"
    by (simp add: os_path_isfile_iff os_stat_sample_a)
  have l: "os_path_isfile sample_world ''/locked1''"
    by (simp add: os_path_isfile_iff os_stat_sample_locked1)
  have d: "os_path_isfile sample_world ''/damaged''"
    by (simp add: os_path_isfile_iff os_stat_sample_damaged)
  from can_read_file_never_raises [OF a] can_read_file_never_raises [OF l]
    can_read_file_never_raises [OF d] a l d
  show ?thesis
    by (simp add: os_stat_sample_a os_stat_sample_locked1 os_stat_sample_damaged
        file_abc_def file_locked_def file_damaged_def)
qed

text \<open>
  Claim C10. For every path naming an existing empty regular file that can be opened,
  \<^verbatim>\<open>can_read_file\<close> returns true: the read of one byte at the end of the file returns
  no data, which the probe does not inspect.
\<close>

theorem can_read_file_empty_file:
  assumes "os_stat w p = Inr (RegularFile fl)" and "content fl = []" and "open_err fl = None"
  shows "fst (can_read_file p w) = Inr True \<and>
     (\<exists>f_in w1. py_open p w = (Inr f_in, w1) \<and> fst (py_read 1 f_in w1) = Inr [])"
  using assms py_open_ok [OF assms(1,3)]
  by (simp add: can_read_file_file [OF assms(1)] py_read_def Let_def)

theorem can_read_file_empty_file_witness:
  "os_stat sample_world ''/e'' = Inr (RegularFile file_empty) \<and>
   content file_empty = [] \<and> open_err file_empty = None \<and>
   fst (can_read_file ''/e'' sample_world) = Inr True"
  using can_read_file_empty_file [OF os_stat_sample_e]
  by (simp add: os_stat_sample_e file_empty_def)

subsection \<open>\<^verbatim>\<open>copy_link\<close>\<close>

text \<open>
  Claim C3. For every pair of paths, \<^verbatim>\<open>copy_link\<close> fails with the error "Not a symbolic
  link" when \<open>src\<close> is not a symbolic link. When \<open>src\<close> is one and \<open>dst\<close> already exists in
  any form (a regular file, a directory or a symbolic link, a broken one included), it
  fails with an error that reports the existing destination: its own "Destination already
  exists" when \<^verbatim>\<open>os.path.exists\<close> sees \<open>dst\<close> (a regular file, a directory, a link that
  resolves), and the \<open>EEXIST\<close> of \<^verbatim>\<open>os.symlink\<close> when \<open>dst\<close> is an entry that does not resolve.
  Every failure leaves the world as it was: no entry is created or modified.
\<close>

theorem copy_link_failures:
  "(\<not> os_path_islink w src \<longrightarrow>
      copy_link src dst w = (Inl (OSError_msg (''Not a symbolic link: '' @ src)), w)) \<and>
   (os_path_islink w src \<and> entries w dst \<noteq> None \<longrightarrow>
      (\<exists>e. copy_link src dst w = (Inl e, w) \<and> destination_exists_error dst e)) \<and>
   (os_path_islink w src \<and> os_path_exists w dst \<longrightarrow>
      copy_link src dst w = (Inl (OSError_msg (''Destination already exists: '' @ dst)), w)) \<and>
   ((\<exists>f. entries w dst = Some (RegularFile f)) \<or> entries w dst = Some Directory \<longrightarrow>
      os_path_exists w dst) \<and>
   (os_path_islink w src \<and> \<not> os_path_exists w dst \<and> entries w dst \<noteq> None \<longrightarrow>
      copy_link src dst w = (Inl (OSError_errno EEXIST), w)) \<and>
   (\<forall>e. fst (copy_link src dst w) = Inl e \<longrightarrow> snd (copy_link src dst w) = w)"
proof -
  have a: "\<not> os_path_islink w src \<longrightarrow>
      copy_link src dst w = (Inl (OSError_msg (''Not a symbolic link: '' @ src)), w)"
    by (simp add: copy_link_def)
  have b: "os_path_islink w src \<and> os_path_exists w dst \<longrightarrow>
      copy_link src dst w = (Inl (OSError_msg (''Destination already exists: '' @ dst)), w)"
    by (simp add: copy_link_def)
  have c: "(\<exists>f. entries w dst = Some (RegularFile f)) \<or> entries w dst = Some Directory \<longrightarrow>
      os_path_exists w dst"
    by (auto simp: os_path_exists_file os_path_exists_dir)
  have d: "os_path_islink w src \<and> \<not> os_path_exists w dst \<and> entries w dst \<noteq> None \<longrightarrow>
      copy_link src dst w = (Inl (OSError_errno EEXIST), w)"
    by (auto simp: os_path_islink_iff copy_link_linked os_symlink_def)
  have e: "os_path_islink w src \<and> entries w dst \<noteq> None \<longrightarrow>
      (\<exists>e. copy_link src dst w = (Inl e, w) \<and> destination_exists_error dst e)"
  proof (cases "os_path_exists w dst")
    case True
    with b show ?thesis by (simp add: destination_exists_error_def)
  next
    case False
    with d show ?thesis by (simp add: destination_exists_error_def)
  qed
  from a b c d e show ?thesis
    by (simp add: copy_link_error_frame)
qed

theorem copy_link_failures_witness:
  "\<not> os_path_islink sample_world ''/a'' \<and>
   copy_link ''/a'' ''/new'' sample_world =
     (Inl (OSError_msg ''Not a symbolic link: /a''), sample_world) \<and>
   os_path_islink sample_world ''/link'' \<and> os_path_exists sample_world ''/dir'' \<and>
   copy_link ''/link'' ''/dir'' sample_world =
     (Inl (OSError_msg ''Destination already exists: /dir''), sample_world) \<and>
   os_path_exists sample_world ''/to_a'' \<and>
   copy_link ''/link'' ''/to_a'' sample_world =
     (Inl (OSError_msg ''Destination already exists: /to_a''), sample_world) \<and>
   \<not> os_path_exists sample_world ''/dangling'' \<and> entries sample_world ''/dangling'' \<noteq> None \<and>
   copy_link ''/link'' ''/dangling'' sample_world = (Inl (OSError_errno EEXIST), sample_world) \<and>
   destination_exists_error ''/dangling'' (OSError_errno EEXIST) \<and>
   destination_exists_error ''/dir'' (OSError_msg ''Destination already exists: /dir'') \<and>
   fst (copy_link ''/link'' ''/ro/new'' sample_world) = Inl (OSError_errno EACCES) \<and>
   snd (copy_link ''/link'' ''/ro/new'' sample_world) = sample_world"
proof -
  have 1: "\<not> os_path_islink sample_world ''/a''"
    by (simp add: os_path_islink_def sample_world_def)
  have 2: "os_path_exists sample_world ''/dir''"
    by (rule os_path_exists_dir) (simp add: sample_world_def)
  have 3: "os_path_exists sample_world ''/to_a''"
    by (simp add: os_path_exists_def os_stat_sample_to_a)
  have 4: "entries sample_world ''/dangling'' \<noteq> None"
    by (simp add: sample_world_def)
  have l: "entries sample_world ''/link'' = Some (SymLink ''/tmp/foo'')"
    by (simp add: sample_world_def)
  have ne: "\<not> os_path_exists sample_world ''/ro/new''"
    using os_path_exists_entry [of sample_world "''/ro/new''"] by (auto simp: sample_world_def)
  have 5: "fst (copy_link ''/link'' ''/ro/new'' sample_world) = Inl (OSError_errno EACCES)"
    unfolding copy_link_linked [OF l ne] by (simp add: os_symlink_def sample_world_def)
  from copy_link_failures [of sample_world "''/a''" "''/new''"]
    copy_link_failures [of sample_world "''/link''" "''/dir''"]
    copy_link_failures [of sample_world "''/link''" "''/to_a''"]
    copy_link_failures [of sample_world "''/link''" "''/dangling''"]
    copy_link_failures [of sample_world "''/link''" "''/ro/new''"]
    1 2 3 4 5 islink_sample_link exists_sample_dangling
  show ?thesis by (simp add: destination_exists_error_def)
qed

text \<open>
  Claim C4. For every \<open>src\<close> that is a symbolic link and every \<open>dst\<close> that does not exist,
  a successful call leaves at \<open>dst\<close> a symbolic link that stores the very string stored in
  \<open>src\<close>, unresolved (the target need not exist); \<open>dst\<close> is the one new entry, and \<open>src\<close>
  and every other entry are unchanged. The call succeeds whenever \<open>dst\<close> is free and
  the system lets the entry be created.
\<close>

theorem copy_link_success:
  assumes "os_path_islink w src" and "\<not> os_path_exists w dst"
  shows "\<exists>t. entries w src = Some (SymLink t) \<and>
     (entries w dst = None \<and> create_err w dst = None \<longrightarrow>
        copy_link src dst w = (Inr (), w\<lparr>entries := (entries w)(dst \<mapsto> SymLink t)\<rparr>)) \<and>
     (\<forall>w'. copy_link src dst w = (Inr (), w') \<longrightarrow>
        entries w dst = None \<and>
        entries w' dst = Some (SymLink t) \<and>
        os_readlink w' dst = Inr t \<and>
        entries w' src = Some (SymLink t) \<and>
        dom (entries w') = insert dst (dom (entries w)) \<and>
        (\<forall>p. p \<noteq> dst \<longrightarrow> entries w' p = entries w p) \<and>
        create_err w' = create_err w \<and> open_fds w' = open_fds w \<and> io_log w' = io_log w)"
proof -
  from assms(1) obtain t where t: "entries w src = Some (SymLink t)"
    by (auto simp: os_path_islink_iff)
  note eq = copy_link_linked [OF t assms(2)]
  have "entries w dst = None \<and> create_err w dst = None \<longrightarrow>
        copy_link src dst w = (Inr (), w\<lparr>entries := (entries w)(dst \<mapsto> SymLink t)\<rparr>)"
    by (simp add: eq os_symlink_def)
  moreover have "\<forall>w'. copy_link src dst w = (Inr (), w') \<longrightarrow>
        entries w dst = None \<and>
        entries w' dst = Some (SymLink t) \<and>
        os_readlink w' dst = Inr t \<and>
        entries w' src = Some (SymLink t) \<and>
        dom (entries w') = insert dst (dom (entries w)) \<and>
        (\<forall>p. p \<noteq> dst \<longrightarrow> entries w' p = entries w p) \<and>
        create_err w' = create_err w \<and> open_fds w' = open_fds w \<and> io_log w' = io_log w"
    using t by (auto simp: eq os_symlink_def os_readlink_def split: option.splits)
  ultimately show ?thesis using t by blast
qed

theorem copy_link_success_witness:
  "os_path_islink sample_world ''/link'' \<and> \<not> os_path_exists sample_world ''/new'' \<and>
   entries sample_world ''/link'' = Some (SymLink ''/tmp/foo'') \<and>
   entries sample_world ''/tmp/foo'' = None \<and>
   fst (copy_link ''/link'' ''/new'' sample_world) = Inr () \<and>
   entries (snd (copy_link ''/link'' ''/new'' sample_world)) ''/new'' = Some (SymLink ''/tmp/foo'') \<and>
   entries (snd (copy_link ''/link'' ''/new'' sample_world)) ''/link'' = Some (SymLink ''/tmp/foo'')"
proof -
  have ne: "\<not> os_path_exists sample_world ''/new''"
    using os_path_exists_entry [of sample_world "''/new''"] by (auto simp: sample_world_def)
  have l: "entries sample_world ''/link'' = Some (SymLink ''/tmp/foo'')"
    by (simp add: sample_world_def)
  have free: "entries sample_world ''/new'' = None" "create_err sample_world ''/new'' = None"
    "entries sample_world ''/tmp/foo'' = None"
    by (simp_all add: sample_world_def)
  from copy_link_success [OF islink_sample_link ne] l free
  have "copy_link ''/link'' ''/new'' sample_world =
      (Inr (), sample_world\<lparr>entries := (entries sample_world)(''/new'' \<mapsto> SymLink ''/tmp/foo'')\<rparr>)"
    by simp
  then show ?thesis
    using islink_sample_link ne l free by simp
qed

subsection \<open>\<^verbatim>\<open>md5\<close>\<close>

text \<open>
  Claim C6. \<^verbatim>\<open>md5\<close> releases its file handle on every exit path: the open descriptors
  after the call are those before it, whatever the outcome, and whenever the file was
  opened the last call on it is \<^verbatim>\<open>close\<close>. An error raised by a read in the loop is the
  error of \<^verbatim>\<open>md5\<close>, unmodified: for a file whose first damaged byte is at offset \<open>k\<close>, the
  reads before the chunk holding \<open>k\<close> succeed, the next one raises, the file is closed and
  that \<^verbatim>\<open>IOError\<close> is the result.
\<close>

theorem md5_releases_handle:
  "open_fds (snd (md5 H p w)) = open_fds w \<and>
   (\<forall>f_in w1. py_open p w = (Inr f_in, w1) \<longrightarrow>
      fo_fd f_in \<in> set (open_fds w1) \<and>
      (\<exists>l. io_log (snd (md5 H p w)) = l @ [EvClose (fo_fd f_in)])) \<and>
   (\<forall>f_in w1 e f' w2.
      py_open p w = (Inr f_in, w1) \<and>
      md5_loop H (10 * 1024 * 1024) f_in (md5_new H) w1 = (Inl e, f', w2) \<longrightarrow>
      fst (md5 H p w) = Inl e) \<and>
   (\<forall>fl k e.
      os_stat w p = Inr (RegularFile fl) \<and> open_err fl = None \<and>
      read_err fl k = Some e \<and> (\<forall>i<k. read_err fl i = None) \<and> k < length (content fl) \<longrightarrow>
      md5 H p w =
        (Inl (IOError e),
         w\<lparr>io_log := io_log w @ EvOpen p #
            replicate (Suc (k div (10 * 1024 * 1024)))
              (EvRead (fresh_fd (open_fds w)) (10 * 1024 * 1024)) @
            [EvClose (fresh_fd (open_fds w))]\<rparr>))"
proof -
  have a: "open_fds (snd (md5 H p w)) = open_fds w"
    by (simp add: md5_def md5_chunked_frame)
  have b: "\<forall>f_in w1. py_open p w = (Inr f_in, w1) \<longrightarrow>
      fo_fd f_in \<in> set (open_fds w1) \<and>
      (\<exists>l. io_log (snd (md5 H p w)) = l @ [EvClose (fo_fd f_in)])"
  proof (intro allI impI)
    fix f_in w1
    assume op: "py_open p w = (Inr f_in, w1)"
    from py_open_Inr [OF op] have "fo_fd f_in \<in> set (open_fds w1)" by simp
    with md5_chunked_closes [OF op, of H "10 * 1024 * 1024"]
    show "fo_fd f_in \<in> set (open_fds w1) \<and>
      (\<exists>l. io_log (snd (md5 H p w)) = l @ [EvClose (fo_fd f_in)])"
      by (simp add: md5_def)
  qed
  have c: "\<forall>f_in w1 e f' w2.
      py_open p w = (Inr f_in, w1) \<and>
      md5_loop H (10 * 1024 * 1024) f_in (md5_new H) w1 = (Inl e, f', w2) \<longrightarrow>
      fst (md5 H p w) = Inl e"
    by (auto simp: md5_def md5_chunked_propagates)
  have d: "\<forall>fl k e.
      os_stat w p = Inr (RegularFile fl) \<and> open_err fl = None \<and>
      read_err fl k = Some e \<and> (\<forall>i<k. read_err fl i = None) \<and> k < length (content fl) \<longrightarrow>
      md5 H p w =
        (Inl (IOError e),
         w\<lparr>io_log := io_log w @ EvOpen p #
            replicate (Suc (k div (10 * 1024 * 1024)))
              (EvRead (fresh_fd (open_fds w)) (10 * 1024 * 1024)) @
            [EvClose (fresh_fd (open_fds w))]\<rparr>)"
  proof (intro allI impI, elim conjE)
    fix fl k e
    assume "os_stat w p = Inr (RegularFile fl)" "open_err fl = None"
      "read_err fl k = Some e" "\<forall>i<k. read_err fl i = None" "k < length (content fl)"
    from md5_chunked_fault_log [OF this, of "10 * 1024 * 1024" H]
    show "md5 H p w =
        (Inl (IOError e),
         w\<lparr>io_log := io_log w @ EvOpen p #
            replicate (Suc (k div (10 * 1024 * 1024)))
              (EvRead (fresh_fd (open_fds w)) (10 * 1024 * 1024)) @
            [EvClose (fresh_fd (open_fds w))]\<rparr>)"
      by (simp add: md5_def)
  qed
  from a b c d show ?thesis by blast
qed

theorem md5_releases_handle_witness:
  "os_stat sample_world ''/big'' = Inr (RegularFile file_big) \<and>
   open_err file_big = None \<and> read_err file_big 10485760 = Some EIO \<and>
   10485760 < length (content file_big) \<and>
   fst (md5 sum8 ''/big'' sample_world) = Inl (IOError EIO) \<and>
   io_log (snd (md5 sum8 ''/big'' sample_world)) =
     [EvOpen ''/big'', EvRead 1 10485760, EvRead 1 10485760, EvClose 1] \<and>
   open_fds (snd (md5 sum8 ''/big'' sample_world)) = []"
proof -
  have fd: "fresh_fd (open_fds sample_world) = 1" "io_log sample_world = []"
    "open_fds sample_world = []"
    by (simp_all add: fresh_fd_def sample_world_def)
  from md5_releases_handle [of sum8 "''/big''" sample_world]
  have "md5 sum8 ''/big'' sample_world =
        (Inl (IOError EIO),
         sample_world\<lparr>io_log := io_log sample_world @ EvOpen ''/big'' #
            replicate (Suc (10485760 div (10 * 1024 * 1024)))
              (EvRead (fresh_fd (open_fds sample_world)) (10 * 1024 * 1024)) @
            [EvClose (fresh_fd (open_fds sample_world))]\<rparr>)"
    using os_stat_sample_big file_big_facts by blast
  then show ?thesis
    using os_stat_sample_big file_big_facts fd by (simp add: numeral_2_eq_2)
qed

text \<open>
  Claim C7. For every readable regular file, \<^verbatim>\<open>md5\<close> opens it, reads chunks of 10 MiB
  until a read returns no data (one read more than there are chunks), feeds the chunks to
  the hash object in the order read, closes the file and returns the \<^verbatim>\<open>hexdigest\<close> of the
  hash object. The chunks are non-empty, all but the last are of 10 MiB, and together
  they are the whole content: for a hash object with the documented \<^verbatim>\<open>update\<close>, the result
  is the digest of the whole content. The string is the one \<^verbatim>\<open>hexdigest\<close> renders,
  lowercase hexadecimal whenever \<^verbatim>\<open>hexdigest\<close> renders so.
\<close>

theorem md5_digest_of_whole_file:
  assumes "os_stat w p = Inr (RegularFile fl)" and "readable fl"
  shows "md5 H p w =
       (Inr (hexdigest H
          (foldl (update H) (md5_new H) (chunks (10 * 1024 * 1024) (content fl)))),
        w\<lparr>io_log := io_log w @ EvOpen p #
           replicate (Suc (length (chunks (10 * 1024 * 1024) (content fl))))
             (EvRead (fresh_fd (open_fds w)) (10 * 1024 * 1024)) @
           [EvClose (fresh_fd (open_fds w))]\<rparr>) \<and>
     concat (chunks (10 * 1024 * 1024) (content fl)) = content fl \<and>
     (\<forall>c\<in>set (chunks (10 * 1024 * 1024) (content fl)).
        c \<noteq> [] \<and> length c \<le> 10 * 1024 * 1024) \<and>
     (\<forall>i. Suc i < length (chunks (10 * 1024 * 1024) (content fl)) \<longrightarrow>
        length (chunks (10 * 1024 * 1024) (content fl) ! i) = 10 * 1024 * 1024) \<and>
     (streaming H \<longrightarrow>
        fst (md5 H p w) = Inr (hexdigest H (update H (md5_new H) (content fl)))) \<and>
     ((\<forall>h. hex_lower (hexdigest H h)) \<longrightarrow> (\<exists>d. fst (md5 H p w) = Inr d \<and> hex_lower d))"
proof -
  have pos: "(0::nat) < 10485760" by simp
  note run = md5_chunked_readable [OF assms pos, of H]
  have "streaming H \<longrightarrow>
        fst (md5 H p w) = Inr (hexdigest H (update H (md5_new H) (content fl)))"
    by (simp add: md5_def run foldl_update_chunks)
  moreover have "(\<forall>h. hex_lower (hexdigest H h)) \<longrightarrow> (\<exists>d. fst (md5 H p w) = Inr d \<and> hex_lower d)"
    by (simp add: md5_def run)
  moreover have "\<forall>i. Suc i < length (chunks (10 * 1024 * 1024) (content fl)) \<longrightarrow>
        length (chunks (10 * 1024 * 1024) (content fl) ! i) = 10 * 1024 * 1024"
    by (simp add: chunks_full)
  moreover have "\<forall>c\<in>set (chunks (10 * 1024 * 1024) (content fl)).
        c \<noteq> [] \<and> length c \<le> 10 * 1024 * 1024"
    using chunks_sizes by blast
  moreover have "concat (chunks (10 * 1024 * 1024) (content fl)) = content fl"
    by (rule concat_chunks) simp
  moreover have "md5 H p w =
       (Inr (hexdigest H
          (foldl (update H) (md5_new H) (chunks (10 * 1024 * 1024) (content fl)))),
        w\<lparr>io_log := io_log w @ EvOpen p #
           replicate (Suc (length (chunks (10 * 1024 * 1024) (content fl))))
             (EvRead (fresh_fd (open_fds w)) (10 * 1024 * 1024)) @
           [EvClose (fresh_fd (open_fds w))]\<rparr>)"
    by (simp add: md5_def run)
  ultimately show ?thesis
    by blast
qed

theorem md5_digest_of_whole_file_witness:
  "os_stat sample_world ''/a'' = Inr (RegularFile file_abc) \<and> readable file_abc \<and>
   streaming sum8 \<and> (\<forall>h. hex_lower (hexdigest sum8 h)) \<and>
   md5 sum8 ''/a'' sample_world =
     (Inr ''26'',
      sample_world\<lparr>io_log := [EvOpen ''/a'', EvRead 1 10485760, EvRead 1 10485760, EvClose 1]\<rparr>) \<and>
   hexdigest sum8 (update sum8 (md5_new sum8) (content file_abc)) = ''26'' \<and>
   hex_lower ''26''"
proof -
  have fd: "fresh_fd (open_fds sample_world) = 1" "io_log sample_world = []"
    by (simp_all add: fresh_fd_def sample_world_def)
  have ch: "chunks 10485760 (content file_abc) = [[0x61, 0x62, 0x63]]"
    by (simp add: file_abc_def chunks_step)
  have dg: "hexdigest sum8 (update sum8 (md5_new sum8) (content file_abc)) = ''26''"
    by (simp add: sum8_def file_abc_def hexdigit_def)
  from md5_digest_of_whole_file [OF os_stat_sample_a readable_abc, of sum8]
  have "md5 sum8 ''/a'' sample_world =
     (Inr ''26'',
      sample_world\<lparr>io_log := [EvOpen ''/a'', EvRead 1 10485760, EvRead 1 10485760, EvClose 1]\<rparr>)"
    by (simp add: ch fd sum8_def hexdigit_def)
  with dg show ?thesis
    using os_stat_sample_a readable_abc streaming_sum8 hex_lower_sum8
    by (simp add: hex_lower_def)
qed

text \<open>
  Claim C2. For every readable regular file and every hash object with the documented
  \<^verbatim>\<open>update\<close>, the digest does not depend on the chunk size: with any positive chunk size
  the result is the digest of the content fed in one piece, the one \<^verbatim>\<open>md5\<close> returns with
  its 10 MiB; and a second read, in the state the first one leaves, returns it again.
\<close>

theorem md5_chunk_size_invariant:
  assumes "streaming H" and "os_stat w p = Inr (RegularFile fl)" and "readable fl"
    and "0 < n" and "0 < m"
  shows "fst (md5_chunked H n p w) = Inr (hexdigest H (update H (md5_new H) (content fl))) \<and>
     fst (md5_chunked H m p w) = fst (md5_chunked H n p w) \<and>
     fst (md5 H p w) = fst (md5_chunked H n p w) \<and>
     fst (md5_chunked H m p (snd (md5_chunked H n p w))) = fst (md5_chunked H n p w)"
proof -
  have one: "fst (md5_chunked H k p w) = Inr (hexdigest H (update H (md5_new H) (content fl)))"
    if "0 < k" for k
    using that assms(1) by (simp add: md5_chunked_readable [OF assms(2,3) that] foldl_update_chunks)
  have "entries (snd (md5_chunked H n p w)) = entries w"
    by (simp add: md5_chunked_frame)
  then have "fst (md5_chunked H m p (snd (md5_chunked H n p w))) = fst (md5_chunked H m p w)"
    by (rule md5_chunked_indep)
  then show ?thesis
    using one [OF assms(4)] one [OF assms(5)] one [of 10485760]
    by (simp add: md5_def)
qed

theorem md5_chunk_size_invariant_witness:
  "streaming sum8 \<and> os_stat sample_world ''/a'' = Inr (RegularFile file_abc) \<and>
   readable file_abc \<and>
   fst (md5_chunked sum8 1 ''/a'' sample_world) = Inr ''26'' \<and>
   fst (md5_chunked sum8 2 ''/a'' sample_world) = Inr ''26'' \<and>
   fst (md5 sum8 ''/a'' sample_world) = Inr ''26''"
proof -
  have dg: "hexdigest sum8 (update sum8 (md5_new sum8) (content file_abc)) = ''26''"
    by (simp add: sum8_def file_abc_def hexdigit_def)
  from md5_chunk_size_invariant [OF streaming_sum8 os_stat_sample_a readable_abc, of 1 2]
  show ?thesis
    using streaming_sum8 os_stat_sample_a readable_abc by (simp add: dg)
qed

subsection \<open>\<^verbatim>\<open>is_same_file\<close>\<close>

text \<open>
  Claim C1. For every pair of paths naming existing regular files, \<^verbatim>\<open>is_same_file\<close>
  first takes both sizes from \<^verbatim>\<open>os.stat\<close>. If they differ it returns false and the world
  is as before: no file was opened or read. Otherwise it returns true if and only if the
  digests \<^verbatim>\<open>md5\<close> gives for the two files are equal; when \<^verbatim>\<open>md5\<close> raises for one of them,
  that error is raised.
\<close>

theorem is_same_file_size_then_digest:
  assumes "os_path_isfile w f1" and "os_path_isfile w f2"
  shows "\<exists>s0 s1. os_stat w f1 = Inr s0 \<and> os_stat w f2 = Inr s1 \<and>
     (st_size s0 \<noteq> st_size s1 \<longrightarrow>
        is_same_file H f1 f2 w = (Inr False, w) \<and>
        io_log (snd (is_same_file H f1 f2 w)) = io_log w) \<and>
     (st_size s0 = st_size s1 \<longrightarrow>
        (\<forall>d1 d2. fst (md5 H f1 w) = Inr d1 \<and> fst (md5 H f2 w) = Inr d2 \<longrightarrow>
           fst (is_same_file H f1 f2 w) = Inr (d1 = d2)) \<and>
        (\<forall>e. fst (md5 H f1 w) = Inl e \<longrightarrow> fst (is_same_file H f1 f2 w) = Inl e) \<and>
        (\<forall>d1 e. fst (md5 H f1 w) = Inr d1 \<and> fst (md5 H f2 w) = Inl e \<longrightarrow>
           fst (is_same_file H f1 f2 w) = Inl e))"
proof -
  from assms obtain a b where
    st: "os_stat w f1 = Inr (RegularFile a)" "os_stat w f2 = Inr (RegularFile b)"
    by (auto simp: os_path_isfile_iff)
  have "st_size (RegularFile a) \<noteq> st_size (RegularFile b) \<longrightarrow>
        is_same_file H f1 f2 w = (Inr False, w) \<and>
        io_log (snd (is_same_file H f1 f2 w)) = io_log w"
    by (simp add: is_same_file_files [OF st])
  moreover have "st_size (RegularFile a) = st_size (RegularFile b) \<longrightarrow>
        (\<forall>d1 d2. fst (md5 H f1 w) = Inr d1 \<and> fst (md5 H f2 w) = Inr d2 \<longrightarrow>
           fst (is_same_file H f1 f2 w) = Inr (d1 = d2)) \<and>
        (\<forall>e. fst (md5 H f1 w) = Inl e \<longrightarrow> fst (is_same_file H f1 f2 w) = Inl e) \<and>
        (\<forall>d1 e. fst (md5 H f1 w) = Inr d1 \<and> fst (md5 H f2 w) = Inl e \<longrightarrow>
           fst (is_same_file H f1 f2 w) = Inl e)"
    by (auto simp: is_same_file_result [OF st])
  ultimately show ?thesis
    using st by blast
qed

theorem is_same_file_size_then_digest_witness:
  "os_path_isfile sample_world ''/locked1'' \<and> os_path_isfile sample_world ''/e'' \<and>
   is_same_file sum8 ''/locked1'' ''/e'' sample_world = (Inr False, sample_world) \<and>
   os_path_isfile sample_world ''/a'' \<and> os_path_isfile sample_world ''/b'' \<and>
   os_path_isfile sample_world ''/c'' \<and>
   fst (md5 sum8 ''/a'' sample_world) = Inr ''26'' \<and>
   fst (md5 sum8 ''/b'' sample_world) = Inr ''26'' \<and>
   fst (md5 sum8 ''/c'' sample_world) = Inr ''27'' \<and>
   fst (is_same_file sum8 ''/a'' ''/b'' sample_world) = Inr True \<and>
   fst (is_same_file sum8 ''/a'' ''/c'' sample_world) = Inr False"
proof -
  have f: "os_path_isfile sample_world ''/locked1''" "os_path_isfile sample_world ''/e''"
    "os_path_isfile sample_world ''/a''" "os_path_isfile sample_world ''/b''"
    "os_path_isfile sample_world ''/c''"
    by (simp_all add: os_path_isfile_iff os_stat_sample_locked1 os_stat_sample_e
        os_stat_sample_a os_stat_sample_b os_stat_sample_c)
  have d: "fst (md5 sum8 ''/a'' sample_world) = Inr ''26''"
    "fst (md5 sum8 ''/b'' sample_world) = Inr ''26''"
    "fst (md5 sum8 ''/c'' sample_world) = Inr ''27''"
    by (simp_all add: md5_readable [OF os_stat_sample_a readable_abc]
        md5_readable [OF os_stat_sample_b readable_abc]
        md5_readable [OF os_stat_sample_c readable_abd]
        digest_of_sum8_abc digest_of_sum8_abd)
  from is_same_file_size_then_digest [OF f(1,2), of sum8]
  have 1: "is_same_file sum8 ''/locked1'' ''/e'' sample_world = (Inr False, sample_world)"
    by (simp add: os_stat_sample_locked1 os_stat_sample_e file_locked_def file_empty_def)
  from is_same_file_size_then_digest [OF f(3,4), of sum8] d
  have 2: "fst (is_same_file sum8 ''/a'' ''/b'' sample_world) = Inr True"
    by (simp add: os_stat_sample_a os_stat_sample_b)
  from is_same_file_size_then_digest [OF f(3,5), of sum8] d
  have 3: "fst (is_same_file sum8 ''/a'' ''/c'' sample_world) = Inr False"
    by (simp add: os_stat_sample_a os_stat_sample_c file_abc_def file_abd_def)
  from f d 1 2 3 show ?thesis by simp
qed




end
